theory Spec2Isabelle
  imports Main "HOL-Library.Word"
begin

unbundle bit_operations_syntax

section \<open>Python values used by \<open>bokeh/util/session_id.py\<close>\<close>

text \<open>
  A Python \<open>bytes\<close> object is a list of 8-bit words. A Python \<open>str\<close> is a sequence of
  Unicode code points, so it is a list of naturals: \<open>len\<close> counts code points, and a
  \<open>str\<close> may hold a lone surrogate (U+D800..U+DFFF), which has no UTF-8 encoding.
  Exceptions are values of \<open>error\<close>; a function that may raise returns \<open>error + 'a\<close>.
\<close>

type_synonym byte = "8 word"
type_synonym bytes = "byte list"
type_synonym codepoint = nat
type_synonym str = "codepoint list"

datatype error = TypeError | UnicodeEncodeError | UnicodeDecodeError | IndexError

text \<open>The argument type \<open>Union[str, bytes, None]\<close> of \<open>_ensure_bytes\<close>.\<close>

datatype pyarg = PyNone | PyBytes bytes | PyStr str

text \<open>An ASCII literal of the source, as a \<open>str\<close>.\<close>

definition literal :: "string \<Rightarrow> str" where
  "literal s = map of_char s"

definition hyphen :: codepoint where
  "hyphen = 45"

definition equals_sign :: codepoint where
  "equals_sign = 61"

subsection \<open>The codecs: \<open>codecs.encode(s, 'utf-8')\<close> and \<open>codecs.decode(b, 'ascii')\<close>\<close>

definition is_surrogate :: "codepoint \<Rightarrow> bool" where
  "is_surrogate c = (0xD800 \<le> c \<and> c \<le> 0xDFFF)"

text \<open>
  The strict UTF-8 codec rejects surrogates; a value from \<open>0x110000\<close> on is no code point
  at all (no Python \<open>str\<close> holds one) and is rejected likewise.
\<close>

definition encodable :: "codepoint \<Rightarrow> bool" where
  "encodable c = (c < 0x110000 \<and> \<not> is_surrogate c)"

definition utf8_char :: "codepoint \<Rightarrow> bytes" where
  "utf8_char c =
     (if c < 0x80 then [of_nat c]
      else if c < 0x800 then [of_nat (0xC0 + c div 64), of_nat (0x80 + c mod 64)]
      else if c < 0x10000 then
        [of_nat (0xE0 + c div 4096), of_nat (0x80 + c div 64 mod 64), of_nat (0x80 + c mod 64)]
      else
        [of_nat (0xF0 + c div 262144), of_nat (0x80 + c div 4096 mod 64),
         of_nat (0x80 + c div 64 mod 64), of_nat (0x80 + c mod 64)])"

definition codecs_encode_utf8 :: "str \<Rightarrow> error + bytes" where
  "codecs_encode_utf8 s =
     (if list_all encodable s then Inr (concat (map utf8_char s)) else Inl UnicodeEncodeError)"

definition codecs_decode_ascii :: "bytes \<Rightarrow> error + str" where
  "codecs_decode_ascii b =
     (if list_all (\<lambda>x. unat x < 128) b then Inr (map unat b) else Inl UnicodeDecodeError)"

subsection \<open>\<open>_ensure_bytes\<close>\<close>

fun ensure_bytes :: "pyarg \<Rightarrow> error + bytes option" where
  "ensure_bytes PyNone = Inr None"
| "ensure_bytes (PyBytes b) = Inr (Some b)"
| "ensure_bytes (PyStr s) =
     (case codecs_encode_utf8 s of Inl e \<Rightarrow> Inl e | Inr b \<Rightarrow> Inr (Some b))"

text \<open>
  A value of type \<open>Optional[bytes]\<close> (the result of \<open>_ensure_bytes\<close>, and the declared
  type of the \<open>secret_key\<close> parameters) passed on as an argument.
\<close>

fun optional_bytes :: "bytes option \<Rightarrow> pyarg" where
  "optional_bytes None = PyNone"
| "optional_bytes (Some b) = PyBytes b"

section \<open>The library primitives: SHA-256, HMAC, URL-safe base64, \<open>compare_digest\<close>\<close>

subsection \<open>\<open>hashlib.sha256\<close> (FIPS 180-4)\<close>

type_synonym w32 = "32 word"

definition sha256_k :: "w32 list" where
  "sha256_k = [
   0x428A2F98, 0x71374491, 0xB5C0FBCF, 0xE9B5DBA5, 0x3956C25B, 0x59F111F1, 0x923F82A4, 0xAB1C5ED5,
   0xD807AA98, 0x12835B01, 0x243185BE, 0x550C7DC3, 0x72BE5D74, 0x80DEB1FE, 0x9BDC06A7, 0xC19BF174,
   0xE49B69C1, 0xEFBE4786, 0x0FC19DC6, 0x240CA1CC, 0x2DE92C6F, 0x4A7484AA, 0x5CB0A9DC, 0x76F988DA,
   0x983E5152, 0xA831C66D, 0xB00327C8, 0xBF597FC7, 0xC6E00BF3, 0xD5A79147, 0x06CA6351, 0x14292967,
   0x27B70A85, 0x2E1B2138, 0x4D2C6DFC, 0x53380D13, 0x650A7354, 0x766A0ABB, 0x81C2C92E, 0x92722C85,
   0xA2BFE8A1, 0xA81A664B, 0xC24B8B70, 0xC76C51A3, 0xD192E819, 0xD6990624, 0xF40E3585, 0x106AA070,
   0x19A4C116, 0x1E376C08, 0x2748774C, 0x34B0BCB5, 0x391C0CB3, 0x4ED8AA4A, 0x5B9CCA4F, 0x682E6FF3,
   0x748F82EE, 0x78A5636F, 0x84C87814, 0x8CC70208, 0x90BEFFFA, 0xA4506CEB, 0xBEF9A3F7, 0xC67178F2]"

definition sha256_h0 :: "w32 list" where
  "sha256_h0 = [0x6A09E667, 0xBB67AE85, 0x3C6EF372, 0xA54FF53A,
                0x510E527F, 0x9B05688C, 0x1F83D9AB, 0x5BE0CD19]"

definition be32 :: "byte \<Rightarrow> byte \<Rightarrow> byte \<Rightarrow> byte \<Rightarrow> w32" where
  "be32 a b c d =
     push_bit 24 (ucast a) OR push_bit 16 (ucast b) OR push_bit 8 (ucast c) OR ucast d"

definition be32_bytes :: "w32 \<Rightarrow> bytes" where
  "be32_bytes w = [ucast (drop_bit 24 w), ucast (drop_bit 16 w), ucast (drop_bit 8 w), ucast w]"

fun words_of :: "bytes \<Rightarrow> w32 list" where
  "words_of (a # b # c # d # rest) = be32 a b c d # words_of rest"
| "words_of _ = []"

text \<open>Padding: a one bit, zeros up to 56 modulo 64, the bit length on 64 bits, big-endian.\<close>

definition sha256_pad :: "bytes \<Rightarrow> bytes" where
  "sha256_pad m =
     (let n = length m;
          z = (119 - n mod 64) mod 64;
          bits = (of_nat (8 * n) :: 64 word)
      in m @ [0x80] @ replicate z 0 @
         map (\<lambda>i. ucast (drop_bit (8 * (7 - i)) bits)) [0..<8])"

definition ssig0 :: "w32 \<Rightarrow> w32" where
  "ssig0 x = word_rotr 7 x XOR word_rotr 18 x XOR drop_bit 3 x"

definition ssig1 :: "w32 \<Rightarrow> w32" where
  "ssig1 x = word_rotr 17 x XOR word_rotr 19 x XOR drop_bit 10 x"

definition bsig0 :: "w32 \<Rightarrow> w32" where
  "bsig0 x = word_rotr 2 x XOR word_rotr 13 x XOR word_rotr 22 x"

definition bsig1 :: "w32 \<Rightarrow> w32" where
  "bsig1 x = word_rotr 6 x XOR word_rotr 11 x XOR word_rotr 25 x"

definition ch :: "w32 \<Rightarrow> w32 \<Rightarrow> w32 \<Rightarrow> w32" where
  "ch x y z = (x AND y) XOR (NOT x AND z)"

definition maj :: "w32 \<Rightarrow> w32 \<Rightarrow> w32 \<Rightarrow> w32" where
  "maj x y z = (x AND y) XOR (x AND z) XOR (y AND z)"

text \<open>The message schedule, newest word first: \<open>ws = [w\<^sub>t\<^sub>-\<^sub>1, w\<^sub>t\<^sub>-\<^sub>2, \<dots>]\<close>.\<close>

fun schedule :: "nat \<Rightarrow> w32 list \<Rightarrow> w32 list" where
  "schedule 0 ws = ws"
| "schedule (Suc n) ws =
     schedule n ((ssig1 (ws ! 1) + ws ! 6 + ssig0 (ws ! 14) + ws ! 15) # ws)"

fun round_step :: "w32 list \<Rightarrow> w32 \<times> w32 \<Rightarrow> w32 list" where
  "round_step [a, b, c, d, e, f, g, h] (k, w) =
     (let t1 = h + bsig1 e + ch e f g + k + w;
          t2 = bsig0 a + maj a b c
      in [t1 + t2, a, b, c, d + t1, e, f, g])"
| "round_step s _ = s"

definition compress :: "w32 list \<Rightarrow> w32 list \<Rightarrow> w32 list" where
  "compress hs blk =
     (let ws = rev (schedule 48 (rev blk))
      in map2 (+) hs (foldl round_step hs (zip sha256_k ws)))"

function chunks :: "nat \<Rightarrow> 'a list \<Rightarrow> 'a list list" where
  "chunks n xs = (if n = 0 \<or> xs = [] then [] else take n xs # chunks n (drop n xs))"
  by pat_completeness auto
termination
  by (relation "measure (\<lambda>(n, xs). length xs)") auto

definition sha256 :: "bytes \<Rightarrow> bytes" where
  "sha256 m = concat (map be32_bytes
      (foldl compress sha256_h0 (chunks 16 (words_of (sha256_pad m)))))"

subsection \<open>\<open>hmac.new(key, msg, hashlib.sha256).digest()\<close> (RFC 2104)\<close>

definition hmac_sha256 :: "bytes \<Rightarrow> bytes \<Rightarrow> bytes" where
  "hmac_sha256 key msg =
     (let k0 = (if length key > 64 then sha256 key else key);
          k = k0 @ replicate (64 - length k0) 0
      in sha256 (map (\<lambda>b. b XOR 0x5c) k @ sha256 (map (\<lambda>b. b XOR 0x36) k @ msg)))"

text \<open>\<open>hmac.new\<close> raises \<open>TypeError\<close> when the key is \<open>None\<close>.\<close>

fun hmac_new_digest :: "bytes option \<Rightarrow> bytes \<Rightarrow> error + bytes" where
  "hmac_new_digest None msg = Inl TypeError"
| "hmac_new_digest (Some key) msg = Inr (hmac_sha256 key msg)"

subsection \<open>\<open>base64.urlsafe_b64encode\<close> (RFC 4648, section 5)\<close>

definition b64_alphabet :: string where
  "b64_alphabet = ''ABCDEFGHIJKLMNOPQRSTUVWXYZabcdefghijklmnopqrstuvwxyz0123456789-_''"

definition b64_digit :: "nat \<Rightarrow> byte" where
  "b64_digit n = of_char (b64_alphabet ! (n mod 64))"

fun urlsafe_b64encode :: "bytes \<Rightarrow> bytes" where
  "urlsafe_b64encode (a # b # c # rest) =
     (let n = unat a * 65536 + unat b * 256 + unat c
      in [b64_digit (n div 262144), b64_digit (n div 4096), b64_digit (n div 64), b64_digit n]
         @ urlsafe_b64encode rest)"
| "urlsafe_b64encode [a, b] =
     (let n = (unat a * 256 + unat b) * 4
      in [b64_digit (n div 4096), b64_digit (n div 64), b64_digit n, 61])"
| "urlsafe_b64encode [a] =
     (let n = unat a * 16
      in [b64_digit (n div 64), b64_digit n, 61, 61])"
| "urlsafe_b64encode [] = []"

subsection \<open>\<open>str.rstrip\<close>, \<open>str.split(sep, 1)\<close>, \<open>hmac.compare_digest\<close>\<close>

definition rstrip :: "codepoint \<Rightarrow> str \<Rightarrow> str" where
  "rstrip c s = rev (dropWhile (\<lambda>x. x = c) (rev s))"

text \<open>
  \<open>s.split(sep, 1)\<close> for a one-character separator: at most one split, at the first
  occurrence; a string without the separator comes back as the only piece.
\<close>

definition split_once :: "codepoint \<Rightarrow> str \<Rightarrow> str list" where
  "split_once sep s =
     (if sep \<in> set s
      then [takeWhile (\<lambda>x. x \<noteq> sep) s, tl (dropWhile (\<lambda>x. x \<noteq> sep) s)]
      else [s])"

text \<open>
  \<open>hmac.compare_digest\<close> on two \<open>str\<close> arguments raises \<open>TypeError\<close> unless both are
  ASCII, and otherwise tells whether they are equal. Its running time is not modelled.
\<close>

definition is_ascii :: "str \<Rightarrow> bool" where
  "is_ascii s = list_all (\<lambda>c. c < 128) s"

definition compare_digest :: "str \<Rightarrow> str \<Rightarrow> error + bool" where
  "compare_digest a b = (if is_ascii a \<and> is_ascii b then Inr (a = b) else Inl TypeError)"

section \<open>The signature: \<open>_base64_encode\<close> and \<open>_signature\<close>\<close>

definition base64_encode :: "pyarg \<Rightarrow> error + str" where
  "base64_encode decoded =
     (case ensure_bytes decoded of
        Inl e \<Rightarrow> Inl e
      | Inr None \<Rightarrow> Inl TypeError
      | Inr (Some decoded_as_bytes) \<Rightarrow>
          (case codecs_decode_ascii (urlsafe_b64encode decoded_as_bytes) of
             Inl e \<Rightarrow> Inl e
           | Inr encoded \<Rightarrow> Inr (rstrip equals_sign encoded)))"

definition signature :: "str \<Rightarrow> pyarg \<Rightarrow> error + str" where
  "signature base_id secret_key =
     (case ensure_bytes secret_key of
        Inl e \<Rightarrow> Inl e
      | Inr key \<Rightarrow>
          (case codecs_encode_utf8 base_id of
             Inl e \<Rightarrow> Inl e
           | Inr base_id_encoded \<Rightarrow>
               (case hmac_new_digest key base_id_encoded of
                  Inl e \<Rightarrow> Inl e
                | Inr digest \<Rightarrow> base64_encode (PyBytes digest))))"

section \<open>The random source\<close>

text \<open>
  The module globals \<open>random\<close> and \<open>using_sysrandom\<close> are the state every generating
  function takes and returns. The generator is seen through the values it hands out:
  \<open>upcoming g n\<close> is what the \<open>n\<close>-th next draw returns before it is reduced to an index,
  and \<open>seeded g key\<close> is the sequence the fallback generator produces once it is
  re-seeded now with \<open>key\<close> mixed in (the generator state and the clock that enter the
  seed are part of \<open>g\<close>). Nothing is assumed about either, so a theorem holds for every
  generator. \<open>trace\<close> records the calls made on the generator, oldest first.
\<close>

datatype event = Reseed "bytes option" | Choice nat

record generator =
  using_sysrandom :: bool
  upcoming :: "nat \<Rightarrow> nat"
  seeded :: "bytes option \<Rightarrow> nat \<Rightarrow> nat"
  trace :: "event list"

text \<open>\<open>random.choice(seq)\<close>: \<open>IndexError\<close> on an empty sequence.\<close>

definition random_choice :: "str \<Rightarrow> generator \<Rightarrow> (error + codepoint) \<times> generator" where
  "random_choice seq g =
     (if seq = [] then (Inl IndexError, g)
      else let i = upcoming g 0 mod length seq
           in (Inr (seq ! i),
               g\<lparr>upcoming := (\<lambda>n. upcoming g (Suc n)), trace := trace g @ [Choice i]\<rparr>))"

text \<open>\<open>_reseed_if_needed\<close>: \<open>random.seed\<close> is called only on the fallback generator.\<close>

definition reseed_if_needed :: "bool \<Rightarrow> pyarg \<Rightarrow> generator \<Rightarrow> (error + unit) \<times> generator" where
  "reseed_if_needed using_sys secret_key g =
     (case ensure_bytes secret_key of
        Inl e \<Rightarrow> (Inl e, g)
      | Inr key \<Rightarrow>
          if \<not> using_sys
          then (Inr (), g\<lparr>upcoming := seeded g key, trace := trace g @ [Reseed key]\<rparr>)
          else (Inr (), g))"

text \<open>The loop \<open>''.join(random.choice(allowed_chars) for i in range(length))\<close>.\<close>

fun join_choices :: "nat \<Rightarrow> str \<Rightarrow> generator \<Rightarrow> (error + str) \<times> generator" where
  "join_choices 0 allowed_chars g = (Inr [], g)"
| "join_choices (Suc n) allowed_chars g =
     (case random_choice allowed_chars g of
        (Inl e, g') \<Rightarrow> (Inl e, g')
      | (Inr c, g') \<Rightarrow>
          (case join_choices n allowed_chars g' of
             (Inl e, g'') \<Rightarrow> (Inl e, g'')
           | (Inr cs, g'') \<Rightarrow> (Inr (c # cs), g'')))"

definition default_length :: int where
  "default_length = 44"

definition default_allowed_chars :: str where
  "default_allowed_chars =
     literal ''abcdefghijklmnopqrstuvwxyzABCDEFGHIJKLMNOPQRSTUVWXYZ0123456789''"

definition get_random_string :: "int \<Rightarrow> str \<Rightarrow> pyarg \<Rightarrow> generator \<Rightarrow> (error + str) \<times> generator" where
  "get_random_string len allowed_chars secret_key g =
     (case ensure_bytes secret_key of
        Inl e \<Rightarrow> (Inl e, g)
      | Inr key \<Rightarrow>
          (case reseed_if_needed (using_sysrandom g) (optional_bytes key) g of
             (Inl e, g') \<Rightarrow> (Inl e, g')
           | (Inr u, g') \<Rightarrow> join_choices (nat len) allowed_chars g'))"

section \<open>The public operations\<close>

text \<open>
  \<open>generate_secret_key\<close> calls \<open>_get_random_string()\<close> with every default; the
  default key is \<open>settings.secret_key_bytes()\<close>, read from the configuration when the
  module is loaded and taken here as the parameter \<open>settings_key\<close>.
\<close>

definition generate_secret_key :: "bytes option \<Rightarrow> generator \<Rightarrow> (error + str) \<times> generator" where
  "generate_secret_key settings_key g =
     get_random_string default_length default_allowed_chars (optional_bytes settings_key) g"

text \<open>
  The parameter \<open>signed\<close> is \<open>signed_flag\<close> in both operations. For the check it
  is \<open>Optional[bool]\<close>, and \<open>if signed:\<close> takes \<open>None\<close> as false.
\<close>

definition generate_session_id :: "pyarg \<Rightarrow> bool \<Rightarrow> generator \<Rightarrow> (error + str) \<times> generator" where
  "generate_session_id secret_key signed_flag g =
     (case ensure_bytes secret_key of
        Inl e \<Rightarrow> (Inl e, g)
      | Inr key \<Rightarrow>
          if signed_flag then
            (case get_random_string default_length default_allowed_chars (optional_bytes key) g of
               (Inl e, g') \<Rightarrow> (Inl e, g')
             | (Inr base_id, g') \<Rightarrow>
                 (case signature base_id (optional_bytes key) of
                    Inl e \<Rightarrow> (Inl e, g')
                  | Inr sig \<Rightarrow> (Inr (base_id @ literal ''-'' @ sig), g')))
          else get_random_string default_length default_allowed_chars (optional_bytes key) g)"

definition check_session_id_signature :: "str \<Rightarrow> pyarg \<Rightarrow> bool option \<Rightarrow> error + bool" where
  "check_session_id_signature session_id secret_key signed_flag =
     (case ensure_bytes secret_key of
        Inl e \<Rightarrow> Inl e
      | Inr key \<Rightarrow>
          if signed_flag = Some True then
            (let pieces = split_once hyphen session_id
             in if length pieces \<noteq> 2 then Inr False
                else
                  (let base_id = pieces ! 0; provided_signature = pieces ! 1
                   in case signature base_id (optional_bytes key) of
                        Inl e \<Rightarrow> Inl e
                      | Inr expected_signature \<Rightarrow>
                          compare_digest expected_signature provided_signature))
          else Inr True)"

section \<open>Vocabulary of the statements\<close>

text \<open>
  The character classes of the token format: \<open>[A-Za-z0-9]\<close> and \<open>[A-Za-z0-9_-]\<close>.
\<close>

definition is_alnum :: "codepoint \<Rightarrow> bool" where
  "is_alnum c = (48 \<le> c \<and> c \<le> 57 \<or> 65 \<le> c \<and> c \<le> 90 \<or> 97 \<le> c \<and> c \<le> 122)"

definition is_b64url :: "codepoint \<Rightarrow> bool" where
  "is_b64url c = (is_alnum c \<or> c = 95 \<or> c = 45)"

definition is_b64_byte :: "byte \<Rightarrow> bool" where
  "is_b64_byte x = is_b64url (unat x)"

text \<open>
  A full match of \<open>^[A-Za-z0-9]{L}$\<close>, and of \<open>^[A-Za-z0-9]{L}-[A-Za-z0-9_-]+$\<close>: the
  first \<open>L\<close> characters are alphanumeric, a hyphen follows, and what follows the hyphen
  is a non-empty base64url string.
\<close>

definition matches_unsigned :: "nat \<Rightarrow> str \<Rightarrow> bool" where
  "matches_unsigned L s = (length s = L \<and> list_all is_alnum s)"

definition matches_signed :: "nat \<Rightarrow> str \<Rightarrow> bool" where
  "matches_signed L s =
     (L < length s \<and> list_all is_alnum (take L s) \<and> s ! L = hyphen \<and>
      drop (Suc L) s \<noteq> [] \<and> list_all is_b64url (drop (Suc L) s))"

text \<open>The two kinds of call recorded in a generator's trace.\<close>

fun is_choice :: "event \<Rightarrow> bool" where
  "is_choice (Choice i) = True"
| "is_choice (Reseed k) = False"

fun is_reseed :: "event \<Rightarrow> bool" where
  "is_reseed (Reseed k) = True"
| "is_reseed (Choice i) = False"

text \<open>
  The signature as the specification recomputes it, independently of \<open>_signature\<close>: the
  HMAC-SHA256 of the UTF-8 bytes of the base identifier, base64url-encoded, with the
  trailing \<open>=\<close> characters stripped.
\<close>

definition spec_signature :: "bytes \<Rightarrow> str \<Rightarrow> str" where
  "spec_signature key base_id =
     rstrip equals_sign
       (map unat (urlsafe_b64encode (hmac_sha256 key (concat (map utf8_char base_id)))))"

text \<open>
  Concrete inputs: the key \<open>b"topsecret"\<close>, and a process that runs on the fallback
  generator (\<open>using_sysrandom\<close> is false).
\<close>

definition topsecret :: bytes where
  "topsecret = map of_char ''topsecret''"

definition fallback_generator :: generator where
  "fallback_generator =
     \<lparr>using_sysrandom = False, upcoming = (\<lambda>n. 7 * n + 3), seeded = (\<lambda>key n. 5 * n + 1),
      trace = []\<rparr>"

section \<open>Properties of the parts\<close>

subsection \<open>The library models on known values\<close>

text \<open>
  The digest of \<open>"abc"\<close> given in FIPS 180-4, a base64 encoding with both URL-safe
  characters and padding, and UTF-8 encodings of one to four bytes.
\<close>

lemma sha256_abc:
  "sha256 [0x61, 0x62, 0x63] =
     [0xBA, 0x78, 0x16, 0xBF, 0x8F, 0x01, 0xCF, 0xEA, 0x41, 0x41, 0x40, 0xDE, 0x5D, 0xAE, 0x22, 0x23,
      0xB0, 0x03, 0x61, 0xA3, 0x96, 0x17, 0x7A, 0x9C, 0xB4, 0x10, 0xFF, 0x61, 0xF2, 0x00, 0x15, 0xAD]"
  by code_simp

lemma urlsafe_b64encode_example:
  "map unat (urlsafe_b64encode [0xFB, 0xFF, 0xFE, 0x01]) = literal ''-__-AQ==''"
  by (simp add: b64_digit_def b64_alphabet_def literal_def)

lemma codecs_encode_utf8_example:
  "codecs_encode_utf8 [0x41, 0xE9, 0x20AC, 0x1F600] =
     Inr [0x41, 0xC3, 0xA9, 0xE2, 0x82, 0xAC, 0xF0, 0x9F, 0x98, 0x80]"
  by (simp add: codecs_encode_utf8_def encodable_def is_surrogate_def utf8_char_def)

subsection \<open>Keys, alphabets and the random string\<close>

lemma ensure_bytes_optional [simp]: "ensure_bytes (optional_bytes key) = Inr key"
  by (cases key) simp_all

lemma default_allowed_chars_alnum: "list_all is_alnum default_allowed_chars"
  by (simp add: default_allowed_chars_def literal_def is_alnum_def)

lemma default_allowed_chars_nonempty: "default_allowed_chars \<noteq> []"
  by (simp add: default_allowed_chars_def literal_def)

lemma alnum_not_hyphen: "is_alnum c \<Longrightarrow> c \<noteq> hyphen"
  by (auto simp: is_alnum_def hyphen_def)

lemma alnum_encodable: "is_alnum c \<Longrightarrow> encodable c"
  by (auto simp: is_alnum_def encodable_def is_surrogate_def)

lemma random_choice_ok:
  assumes "seq \<noteq> []"
  shows "\<exists>i < length seq. random_choice seq g =
           (Inr (seq ! i), g\<lparr>upcoming := (\<lambda>n. upcoming g (Suc n)), trace := trace g @ [Choice i]\<rparr>)"
  using assms
  by (intro exI [of _ "upcoming g 0 mod length seq"]) (simp add: random_choice_def Let_def)

lemma join_choices_ok:
  assumes "allowed \<noteq> []"
  shows "\<exists>cs g' evs. join_choices n allowed g = (Inr cs, g') \<and> length cs = n \<and>
           set cs \<subseteq> set allowed \<and> trace g' = trace g @ evs \<and> length evs = n \<and>
           list_all is_choice evs \<and> using_sysrandom g' = using_sysrandom g"
proof (induction n arbitrary: g)
  case 0
  show ?case by simp
next
  case (Suc n)
  from random_choice_ok [OF assms, of g] obtain i where i: "i < length allowed"
    and rc: "random_choice allowed g =
      (Inr (allowed ! i), g\<lparr>upcoming := (\<lambda>n. upcoming g (Suc n)), trace := trace g @ [Choice i]\<rparr>)"
    by blast
  let ?g1 = "g\<lparr>upcoming := (\<lambda>n. upcoming g (Suc n)), trace := trace g @ [Choice i]\<rparr>"
  from Suc.IH [of ?g1] obtain cs g' evs where
    jc: "join_choices n allowed ?g1 = (Inr cs, g')" and len: "length cs = n"
    and sub: "set cs \<subseteq> set allowed" and tr: "trace g' = trace ?g1 @ evs"
    and le: "length evs = n" and ch: "list_all is_choice evs"
    and us: "using_sysrandom g' = using_sysrandom ?g1"
    by blast
  have "join_choices (Suc n) allowed g = (Inr (allowed ! i # cs), g')"
    by (simp add: rc jc)
  moreover have "set (allowed ! i # cs) \<subseteq> set allowed"
    using i sub by simp
  moreover have "trace g' = trace g @ (Choice i # evs)"
    using tr by simp
  ultimately show ?case
    using len le ch us
    by (intro exI [of _ "allowed ! i # cs"] exI [of _ g'] exI [of _ "Choice i # evs"]) simp
qed

lemma get_random_string_ok:
  assumes "allowed \<noteq> []"
  shows "\<exists>cs g' evs. get_random_string len allowed (optional_bytes key) g = (Inr cs, g') \<and>
           length cs = nat len \<and> set cs \<subseteq> set allowed \<and>
           trace g' = trace g @ (if using_sysrandom g then [] else [Reseed key]) @ evs \<and>
           length evs = nat len \<and> list_all is_choice evs"
proof (cases "using_sysrandom g")
  case True
  from join_choices_ok [OF assms, of "nat len" g] show ?thesis
    using True by (auto simp: get_random_string_def reseed_if_needed_def)
next
  case False
  let ?g1 = "g\<lparr>upcoming := seeded g key, trace := trace g @ [Reseed key]\<rparr>"
  from join_choices_ok [OF assms, of "nat len" ?g1] show ?thesis
    using False by (auto simp: get_random_string_def reseed_if_needed_def)
qed

subsection \<open>A SHA-256 digest has 32 bytes\<close>

lemma length_round_step: "length s = 8 \<Longrightarrow> length (round_step s kw) = 8"
  by (induction s kw rule: round_step.induct) (simp_all add: Let_def)

lemma length_foldl_round_step: "length s = 8 \<Longrightarrow> length (foldl round_step s kws) = 8"
  by (induction kws arbitrary: s) (simp_all add: length_round_step)

lemma length_compress: "length hs = 8 \<Longrightarrow> length (compress hs blk) = 8"
  by (simp add: compress_def Let_def length_foldl_round_step)

lemma length_foldl_compress: "length hs = 8 \<Longrightarrow> length (foldl compress hs blks) = 8"
  by (induction blks arbitrary: hs) (simp_all add: length_compress)

lemma length_concat_be32_bytes: "length (concat (map be32_bytes ws)) = 4 * length ws"
  by (induction ws) (simp_all add: be32_bytes_def)

lemma length_sha256: "length (sha256 m) = 32"
  by (simp add: sha256_def length_concat_be32_bytes length_foldl_compress sha256_h0_def)

lemma length_hmac_sha256: "length (hmac_sha256 key msg) = 32"
  by (simp add: hmac_sha256_def Let_def length_sha256)

subsection \<open>The shape of URL-safe base64\<close>

lemma b64_alphabet_all: "list_all (\<lambda>c. is_b64url (of_char c)) b64_alphabet"
  by (simp add: b64_alphabet_def is_b64url_def is_alnum_def)

lemma length_b64_alphabet: "length b64_alphabet = 64"
  by (simp add: b64_alphabet_def)

lemma unat_of_char: "unat (of_char c :: byte) = of_char c"
proof -
  have "unat (of_char c :: byte) = unat (of_nat (of_char c) :: byte)"
    by (simp add: of_nat_of_char)
  also have "\<dots> = of_char c mod 256"
    by (simp add: unat_of_nat)
  also have "\<dots> = of_char c"
    using of_char_mod_256 [of c, where ?'a = nat] by simp
  finally show ?thesis .
qed

lemma b64_digit_ok: "is_b64_byte (b64_digit n)"
proof -
  have "n mod 64 < length b64_alphabet"
    by (simp add: length_b64_alphabet)
  then have "is_b64url (of_char (b64_alphabet ! (n mod 64)))"
    using b64_alphabet_all by (simp add: list_all_length)
  then show ?thesis
    by (simp add: is_b64_byte_def b64_digit_def unat_of_char)
qed

lemma urlsafe_b64encode_shape:
  "\<exists>body k. urlsafe_b64encode d = body @ replicate k 61 \<and> list_all is_b64_byte body \<and>
     length body = (4 * length d + 2) div 3 \<and> k \<le> 2"
proof (induction d rule: urlsafe_b64encode.induct)
  case (1 a b c rest)
  then obtain body k where "urlsafe_b64encode rest = body @ replicate k 61"
    "list_all is_b64_byte body" "length body = (4 * length rest + 2) div 3" "k \<le> 2"
    by blast
  then show ?case
    by (intro exI [of _ "[b64_digit ((unat a * 65536 + unat b * 256 + unat c) div 262144),
           b64_digit ((unat a * 65536 + unat b * 256 + unat c) div 4096),
           b64_digit ((unat a * 65536 + unat b * 256 + unat c) div 64),
           b64_digit (unat a * 65536 + unat b * 256 + unat c)] @ body"] exI [of _ k])
       (simp add: Let_def b64_digit_ok)
next
  case (2 a b)
  show ?case
    by (intro exI [of _ "[b64_digit ((unat a * 256 + unat b) * 4 div 4096),
           b64_digit ((unat a * 256 + unat b) * 4 div 64),
           b64_digit ((unat a * 256 + unat b) * 4)]"] exI [of _ 1])
       (simp add: Let_def b64_digit_ok)
next
  case (3 a)
  show ?case
    by (intro exI [of _ "[b64_digit (unat a * 16 div 64), b64_digit (unat a * 16)]"]
          exI [of _ 2])
       (simp add: Let_def b64_digit_ok numeral_2_eq_2)
next
  case 4
  show ?case by simp
qed

lemma rstrip_padding:
  assumes "list_all (\<lambda>x. x \<noteq> c) xs"
  shows "rstrip c (xs @ replicate k c) = xs"
proof -
  have "dropWhile (\<lambda>x. x = c) (replicate k c @ rev xs) = dropWhile (\<lambda>x. x = c) (rev xs)"
    by (induction k) simp_all
  moreover have "dropWhile (\<lambda>x. x = c) (rev xs) = rev xs"
    using assms by (cases "rev xs") (auto simp: list_all_iff)
  ultimately show ?thesis
    by (simp add: rstrip_def)
qed

lemma b64url_not_equals: "is_b64url c \<Longrightarrow> c \<noteq> equals_sign"
  by (auto simp: is_b64url_def is_alnum_def equals_sign_def)

lemma b64url_ascii: "is_b64url c \<Longrightarrow> c < 128"
  by (auto simp: is_b64url_def is_alnum_def)

lemma base64_encode_bytes:
  "\<exists>s. base64_encode (PyBytes d) = Inr s \<and> list_all is_b64url s \<and>
     length s = (4 * length d + 2) div 3"
proof -
  from urlsafe_b64encode_shape [of d] obtain body k where
    enc: "urlsafe_b64encode d = body @ replicate k 61" and body: "list_all is_b64_byte body"
    and len: "length body = (4 * length d + 2) div 3"
    by blast
  have b64: "list_all is_b64url (map unat body)"
    using body by (simp add: list_all_iff is_b64_byte_def)
  have ascii: "list_all (\<lambda>x. unat x < 128) (body @ replicate k 61)"
    using body by (auto simp: list_all_iff is_b64_byte_def dest: b64url_ascii)
  have "list_all (\<lambda>x. x \<noteq> equals_sign) (map unat body)"
    using b64 by (auto simp: list_all_iff dest: b64url_not_equals)
  then have "rstrip equals_sign (map unat body @ replicate k equals_sign) = map unat body"
    by (rule rstrip_padding)
  then have "base64_encode (PyBytes d) = Inr (map unat body)"
    using ascii by (simp add: base64_encode_def enc codecs_decode_ascii_def equals_sign_def)
  then show ?thesis
    using b64 len by simp
qed

subsection \<open>Splitting, signing and checking\<close>

lemma split_once_first:
  assumes "sep \<notin> set b"
  shows "split_once sep (b @ sep # rest) = [b, rest]"
proof -
  have "takeWhile (\<lambda>x. x \<noteq> sep) (b @ sep # rest) = b"
    using assms by (induction b) simp_all
  moreover have "dropWhile (\<lambda>x. x \<noteq> sep) (b @ sep # rest) = sep # rest"
    using assms by (induction b) simp_all
  ultimately show ?thesis
    by (simp add: split_once_def)
qed

lemma split_once_none: "sep \<notin> set s \<Longrightarrow> split_once sep s = [s]"
  by (simp add: split_once_def)

lemma signature_bytes:
  assumes "list_all encodable base_id"
  shows "\<exists>s. signature base_id (PyBytes key) = Inr s \<and> list_all is_b64url s \<and> length s = 43 \<and>
           s = spec_signature key base_id"
proof -
  let ?d = "hmac_sha256 key (concat (map utf8_char base_id))"
  from base64_encode_bytes [of ?d] obtain s where
    s: "base64_encode (PyBytes ?d) = Inr s" "list_all is_b64url s"
       "length s = (4 * length ?d + 2) div 3"
    by blast
  have "signature base_id (PyBytes key) = Inr s"
    using assms s(1) by (simp add: signature_def codecs_encode_utf8_def)
  moreover have "length s = 43"
    using s(3) by (simp add: length_hmac_sha256)
  moreover have "s = spec_signature key base_id"
    using s(1)
    by (auto simp: base64_encode_def spec_signature_def codecs_decode_ascii_def
             split: if_splits)
  ultimately show ?thesis
    using s(2) by blast
qed

lemma signature_none:
  "signature base_id PyNone =
     Inl (if list_all encodable base_id then TypeError else UnicodeEncodeError)"
  by (simp add: signature_def codecs_encode_utf8_def)

lemma signature_is_b64url:
  assumes "signature base_id key = Inr s"
  shows "list_all is_b64url s"
proof -
  from assms obtain d where "base64_encode (PyBytes d) = Inr s"
    by (auto simp: signature_def split: sum.splits)
  with base64_encode_bytes [of d] show ?thesis
    by auto
qed

lemma b64url_is_ascii: "list_all is_b64url s \<Longrightarrow> is_ascii s"
  by (auto simp: is_ascii_def list_all_iff dest: b64url_ascii)

lemma base_id_default:
  "\<exists>base_id g' evs.
     get_random_string default_length default_allowed_chars (optional_bytes key) g =
       (Inr base_id, g') \<and>
     length base_id = 44 \<and> list_all is_alnum base_id \<and>
     trace g' = trace g @ (if using_sysrandom g then [] else [Reseed key]) @ evs \<and>
     length evs = 44 \<and> list_all is_choice evs"
proof -
  from get_random_string_ok [OF default_allowed_chars_nonempty, of default_length key g]
  obtain cs g' evs where
    "get_random_string default_length default_allowed_chars (optional_bytes key) g = (Inr cs, g')"
    "length cs = nat default_length" "set cs \<subseteq> set default_allowed_chars"
    "trace g' = trace g @ (if using_sysrandom g then [] else [Reseed key]) @ evs"
    "length evs = nat default_length" "list_all is_choice evs"
    by blast
  moreover from this(3) have "list_all is_alnum cs"
    using default_allowed_chars_alnum by (auto simp: list_all_iff)
  ultimately show ?thesis
    by (auto simp: default_length_def)
qed

lemma alnum_list_no_hyphen: "list_all is_alnum s \<Longrightarrow> hyphen \<notin> set s"
  by (auto simp: list_all_iff dest: alnum_not_hyphen)

lemma alnum_list_encodable: "list_all is_alnum s \<Longrightarrow> list_all encodable s"
  by (auto simp: list_all_iff dest: alnum_encodable)

lemma generate_signed_bytes:
  "\<exists>base_id sig g'.
     generate_session_id (PyBytes key) True g = (Inr (base_id @ hyphen # sig), g') \<and>
     length base_id = 44 \<and> list_all is_alnum base_id \<and>
     signature base_id (PyBytes key) = Inr sig \<and> list_all is_b64url sig \<and> length sig = 43 \<and>
     sig = spec_signature key base_id"
proof -
  from base_id_default [of "Some key" g] obtain base_id g' where
    b: "get_random_string default_length default_allowed_chars (PyBytes key) g = (Inr base_id, g')"
       "length base_id = 44" "list_all is_alnum base_id"
    by auto
  from signature_bytes [OF alnum_list_encodable [OF b(3)], of key] obtain sig where
    s: "signature base_id (PyBytes key) = Inr sig" "list_all is_b64url sig" "length sig = 43"
       "sig = spec_signature key base_id"
    by blast
  have "generate_session_id (PyBytes key) True g = (Inr (base_id @ hyphen # sig), g')"
    by (simp add: generate_session_id_def b(1) s(1) literal_def hyphen_def)
  with b s show ?thesis
    by blast
qed

lemma generate_unsigned:
  "\<exists>base_id g'.
     generate_session_id (optional_bytes key) False g = (Inr base_id, g') \<and>
     length base_id = 44 \<and> list_all is_alnum base_id"
proof -
  from base_id_default [of key g] obtain base_id g' where
    "get_random_string default_length default_allowed_chars (optional_bytes key) g =
       (Inr base_id, g')"
    "length base_id = 44" "list_all is_alnum base_id"
    by auto
  then show ?thesis
    by (auto simp: generate_session_id_def)
qed

lemma check_signed_split:
  assumes "hyphen \<notin> set b"
  shows "check_session_id_signature (b @ hyphen # rest) (PyBytes key) (Some True) =
           (case signature b (PyBytes key) of
              Inl e \<Rightarrow> Inl e
            | Inr expected \<Rightarrow> compare_digest expected rest)"
  by (simp add: check_session_id_signature_def split_once_first [OF assms] Let_def)

subsection \<open>Where the check gives a verdict\<close>

text \<open>
  With a key present and \<open>signed\<close> true: the answer is true exactly when the signature
  of the part before the first hyphen is the part after it; and when that first part has
  a UTF-8 encoding and the rest is ASCII, the answer is the boolean itself. With
  \<open>signed\<close> false the answer is true for every key that normalizes.
\<close>

lemma check_signed_true_iff:
  "(hyphen \<notin> set token \<longrightarrow>
      check_session_id_signature token (PyBytes key) (Some True) = Inr False) \<and>
   (hyphen \<notin> set base_id \<longrightarrow>
      (check_session_id_signature (base_id @ hyphen # provided) (PyBytes key) (Some True) = Inr True)
        = (signature base_id (PyBytes key) = Inr provided))"
proof (intro conjI impI)
  assume "hyphen \<notin> set token"
  then show "check_session_id_signature token (PyBytes key) (Some True) = Inr False"
    by (simp add: check_session_id_signature_def split_once_none)
next
  assume nh: "hyphen \<notin> set base_id"
  show "(check_session_id_signature (base_id @ hyphen # provided) (PyBytes key) (Some True) = Inr True)
        = (signature base_id (PyBytes key) = Inr provided)"
  proof (cases "signature base_id (PyBytes key)")
    case (Inl e)
    then show ?thesis
      by (simp add: check_signed_split [OF nh])
  next
    case (Inr expected)
    then have "is_ascii expected"
      by (intro b64url_is_ascii signature_is_b64url)
    then show ?thesis
      using Inr by (auto simp: check_signed_split [OF nh] compare_digest_def)
  qed
qed

lemma check_signed_verdict:
  assumes "hyphen \<notin> set base_id" and "list_all encodable base_id" and "is_ascii provided"
  shows "check_session_id_signature (base_id @ hyphen # provided) (PyBytes key) (Some True) =
           Inr (spec_signature key base_id = provided)"
proof -
  from signature_bytes [OF assms(2), of key] obtain s where
    s: "signature base_id (PyBytes key) = Inr s" "list_all is_b64url s"
       "s = spec_signature key base_id"
    by blast
  have "compare_digest s provided = Inr (s = provided)"
    using b64url_is_ascii [OF s(2)] assms(3) by (simp add: compare_digest_def)
  then show ?thesis
    using s(1) s(3) by (simp add: check_signed_split [OF assms(1)])
qed

lemma check_unsigned_normalized:
  "check_session_id_signature token secret_key (Some False) =
     (case ensure_bytes secret_key of Inl e \<Rightarrow> Inl e | Inr normalized \<Rightarrow> Inr True) \<and>
   check_session_id_signature token (optional_bytes key) (Some False) = Inr True \<and>
   (list_all encodable chars \<longrightarrow>
      check_session_id_signature token (PyStr chars) (Some False) = Inr True)"
  by (simp add: check_session_id_signature_def codecs_encode_utf8_def split: sum.splits)

section \<open>The claims\<close>

text \<open>
  C1 (round trip). For every key of the declared type \<open>Optional[bytes]\<close>, every flag
  \<open>signed\<close> and every generator state, provided the key is present whenever \<open>signed\<close>
  is true: \<open>generate_session_id\<close> returns a token, and
  \<open>check_session_id_signature\<close> on that token with the same key and flag returns true.
\<close>

theorem roundtrip:
  assumes "signed_flag \<longrightarrow> key \<noteq> None"
  shows "\<exists>token g'. generate_session_id (optional_bytes key) signed_flag g = (Inr token, g') \<and>
           check_session_id_signature token (optional_bytes key) (Some signed_flag) = Inr True"
proof (cases signed_flag)
  case True
  with assms obtain k where k: "key = Some k"
    by auto
  from generate_signed_bytes [of k g] obtain base_id sig g' where
    gen: "generate_session_id (PyBytes k) True g = (Inr (base_id @ hyphen # sig), g')"
    and alnum: "list_all is_alnum base_id"
    and sig: "signature base_id (PyBytes k) = Inr sig" "list_all is_b64url sig"
    by blast
  have "compare_digest sig sig = Inr True"
    using b64url_is_ascii [OF sig(2)] by (simp add: compare_digest_def)
  then have "check_session_id_signature (base_id @ hyphen # sig) (PyBytes k) (Some True) = Inr True"
    by (simp add: check_signed_split [OF alnum_list_no_hyphen [OF alnum]] sig(1))
  with gen show ?thesis
    using True k by auto
next
  case False
  from generate_unsigned [of key g] obtain base_id g' where
    "generate_session_id (optional_bytes key) False g = (Inr base_id, g')"
    by blast
  then show ?thesis
    using False by (auto simp: check_session_id_signature_def)
qed

theorem roundtrip_witness:
  "Some topsecret \<noteq> None \<and>
   (\<exists>token g'. generate_session_id (PyBytes topsecret) True fallback_generator = (Inr token, g') \<and>
      check_session_id_signature token (PyBytes topsecret) (Some True) = Inr True)"
  using roundtrip [of True "Some topsecret" fallback_generator] by simp

text \<open>
  C2 (the signature is the independent recomputation). With the key \<open>b"topsecret"\<close> and
  \<open>signed\<close> true, from every generator state a token is returned, it contains a hyphen,
  and its part after the first hyphen is, character for character, the base64url text of
  the HMAC-SHA256 digest (key \<open>b"topsecret"\<close>) of the UTF-8 bytes of its part before the
  first hyphen, without the trailing \<open>=\<close>.
\<close>

theorem topsecret_signature:
  "\<exists>token g'. generate_session_id (PyBytes topsecret) True g = (Inr token, g') \<and>
     hyphen \<in> set token \<and>
     tl (dropWhile (\<lambda>c. c \<noteq> hyphen) token) =
       spec_signature topsecret (takeWhile (\<lambda>c. c \<noteq> hyphen) token)"
proof -
  from generate_signed_bytes [of topsecret g] obtain base_id sig g' where
    gen: "generate_session_id (PyBytes topsecret) True g = (Inr (base_id @ hyphen # sig), g')"
    and alnum: "list_all is_alnum base_id"
    and sig: "sig = spec_signature topsecret base_id"
    by blast
  have "split_once hyphen (base_id @ hyphen # sig) = [base_id, sig]"
    by (rule split_once_first [OF alnum_list_no_hyphen [OF alnum]])
  then have "takeWhile (\<lambda>c. c \<noteq> hyphen) (base_id @ hyphen # sig) = base_id"
    and "tl (dropWhile (\<lambda>c. c \<noteq> hyphen) (base_id @ hyphen # sig)) = sig"
    by (simp_all add: split_once_def)
  with gen sig show ?thesis
    by (intro exI [of _ "base_id @ hyphen # sig"] exI [of _ g']) simp
qed

text \<open>
  C3 (first-split check): the code does not give every token a verdict. With \<open>signed\<close>
  true and a key present, the claim answers every token true or false: false without a
  hyphen, and otherwise true exactly when the signature recomputed over the part before
  the first hyphen is the part after it. The code cuts at the first hyphen and answers a
  token without one false (lines 107-108), but on the token \<open>'abc-\x80'\<close> with the
  key \<open>b"topsecret"\<close> it raises \<open>TypeError\<close> (\<open>hmac.compare_digest\<close> refuses a
  \<open>str\<close> that is not ASCII), and on \<open>'\ud800-x'\<close> it raises
  \<open>UnicodeEncodeError\<close>, where the claim answers false.
\<close>

theorem check_signed_raises:
  "check_session_id_signature (literal ''abc'' @ hyphen # [0x80]) (PyBytes topsecret) (Some True) =
     Inl TypeError \<and>
   check_session_id_signature ([0xD800] @ hyphen # literal ''x'') (PyBytes topsecret) (Some True) =
     Inl UnicodeEncodeError"
proof
  have nh: "hyphen \<notin> set (literal ''abc'')"
    by (simp add: literal_def hyphen_def)
  have enc: "list_all encodable (literal ''abc'')"
    by (simp add: literal_def encodable_def is_surrogate_def)
  from signature_bytes [OF enc, of topsecret] obtain s where
    s: "signature (literal ''abc'') (PyBytes topsecret) = Inr s"
    by blast
  have "compare_digest s [0x80] = Inl TypeError"
    by (simp add: compare_digest_def is_ascii_def)
  then show "check_session_id_signature (literal ''abc'' @ hyphen # [0x80]) (PyBytes topsecret)
      (Some True) = Inl TypeError"
    using s by (simp add: check_signed_split [OF nh])
next
  have nh: "hyphen \<notin> set [0xD800]"
    by (simp add: hyphen_def)
  have "signature [0xD800] (PyBytes topsecret) = Inl UnicodeEncodeError"
    by (simp add: signature_def codecs_encode_utf8_def encodable_def is_surrogate_def)
  then show "check_session_id_signature ([0xD800] @ hyphen # literal ''x'') (PyBytes topsecret)
      (Some True) = Inl UnicodeEncodeError"
    using check_signed_split [OF nh, of "literal ''x''" topsecret] by simp
qed

text \<open>
  C4 (signing without a key fails). With \<open>signed\<close> true and the key \<open>None\<close>,
  \<open>generate_session_id\<close> raises \<open>TypeError\<close> from every generator state; it returns
  no token.
\<close>

theorem generate_signed_without_key:
  "fst (generate_session_id PyNone True g) = Inl TypeError"
proof -
  from base_id_default [of None g] obtain base_id g' where
    b: "get_random_string default_length default_allowed_chars PyNone g = (Inr base_id, g')"
       "list_all is_alnum base_id"
    by auto
  have "signature base_id PyNone = Inl TypeError"
    using alnum_list_encodable [OF b(2)] by (simp add: signature_none)
  then show ?thesis
    by (simp add: generate_session_id_def b(1))
qed

text \<open>
  C5, as amended (one re-seed per string). On the fallback generator,
  \<open>_get_random_string\<close> re-seeds exactly once, before the first draw: the calls it adds
  to the trace are one \<open>Reseed\<close>, with the key mixed in, followed by one \<open>Choice\<close> per
  character and nothing else.
\<close>

theorem reseed_once_per_string:
  assumes "\<not> using_sysrandom g" and "allowed_chars \<noteq> []"
  shows "\<exists>s g' draws.
           get_random_string len allowed_chars (optional_bytes key) g = (Inr s, g') \<and>
           trace g' = trace g @ Reseed key # draws \<and>
           length draws = nat len \<and> list_all is_choice draws"
  using get_random_string_ok [OF assms(2), of len key g] assms(1) by auto

theorem reseed_once_per_string_witness:
  "\<not> using_sysrandom fallback_generator \<and> default_allowed_chars \<noteq> [] \<and>
   (\<exists>s g' draws.
      get_random_string default_length default_allowed_chars (optional_bytes None)
        fallback_generator = (Inr s, g') \<and>
      trace g' = trace fallback_generator @ Reseed None # draws \<and>
      length draws = nat default_length \<and> list_all is_choice draws)"
proof -
  have a: "\<not> using_sysrandom fallback_generator"
    by (simp add: fallback_generator_def)
  have b: "default_allowed_chars \<noteq> []"
    by (simp add: default_allowed_chars_def literal_def)
  show ?thesis
    using a b reseed_once_per_string [OF a b, of default_length None] by simp
qed

text \<open>
  C5 as stated fails: generating one default string on the fallback generator makes 44
  draws and re-seeds once, not once per draw.
\<close>

theorem reseed_per_draw_counterexample:
  "length (filter is_reseed (trace (snd
      (get_random_string default_length default_allowed_chars PyNone fallback_generator)))) = 1 \<and>
   length (filter is_choice (trace (snd
      (get_random_string default_length default_allowed_chars PyNone fallback_generator)))) = 44"
proof -
  from base_id_default [of None fallback_generator] obtain base_id g' evs where
    g: "get_random_string default_length default_allowed_chars PyNone fallback_generator =
          (Inr base_id, g')"
    and tr: "trace g' = Reseed None # evs" and len: "length evs = 44"
    and ch: "list_all is_choice evs"
    by (auto simp: fallback_generator_def)
  have "filter is_choice evs = evs"
    using ch by (simp add: list_all_iff)
  moreover have "filter is_reseed evs = []"
    using ch by (induction evs) (auto elim: is_choice.elims)
  ultimately show ?thesis
    using g tr len by simp
qed

text \<open>
  C6 (the check is disabled): the code does not return true for every key. The claim,
  and the docstring of \<open>check_session_id_signature\<close> ("If signed sessions are
  disabled, this function always returns True"), promise true whenever \<open>signed\<close> is
  false. The code normalizes the key at line 104, before it looks at the flag: with the
  token \<open>'abc'\<close>, the textual key \<open>'\ud800'\<close> and \<open>signed\<close> false it raises
  \<open>UnicodeEncodeError\<close>.
\<close>

theorem check_unsigned_raises:
  "check_session_id_signature (literal ''abc'') (PyStr [0xD800]) (Some False) =
     Inl UnicodeEncodeError"
  by (simp add: check_session_id_signature_def codecs_encode_utf8_def encodable_def
      is_surrogate_def)

text \<open>
  C7 (token format). For every present key and every generator state: with \<open>signed\<close>
  false the token matches \<open>^[A-Za-z0-9]{44}$\<close>; with \<open>signed\<close> true it matches
  \<open>^[A-Za-z0-9]{44}-[A-Za-z0-9_-]+$\<close>, and its signature part (after the 44 characters
  and the hyphen) holds no \<open>=\<close> and has 43 characters, whatever the key and the base
  identifier.
\<close>

theorem token_format:
  "(\<exists>token g'. generate_session_id (PyBytes key) False g = (Inr token, g') \<and>
      matches_unsigned 44 token) \<and>
   (\<exists>token g'. generate_session_id (PyBytes key) True g = (Inr token, g') \<and>
      matches_signed 44 token \<and> equals_sign \<notin> set (drop 45 token) \<and>
      length (drop 45 token) = 43)"
proof
  from generate_unsigned [of "Some key" g]
  show "\<exists>token g'. generate_session_id (PyBytes key) False g = (Inr token, g') \<and>
      matches_unsigned 44 token"
    by (auto simp: matches_unsigned_def)
next
  from generate_signed_bytes [of key g] obtain base_id sig g' where
    gen: "generate_session_id (PyBytes key) True g = (Inr (base_id @ hyphen # sig), g')"
    and b: "length base_id = 44" "list_all is_alnum base_id"
    and s: "list_all is_b64url sig" "length sig = 43"
    by blast
  have "equals_sign \<notin> set sig"
    using s(1) by (auto simp: list_all_iff dest: b64url_not_equals)
  moreover have "sig \<noteq> []"
    using s(2) by auto
  ultimately have "matches_signed 44 (base_id @ hyphen # sig) \<and>
      equals_sign \<notin> set (drop 45 (base_id @ hyphen # sig)) \<and>
      length (drop 45 (base_id @ hyphen # sig)) = 43"
    using b s by (simp add: matches_signed_def nth_append)
  with gen show "\<exists>token g'. generate_session_id (PyBytes key) True g = (Inr token, g') \<and>
      matches_signed 44 token \<and> equals_sign \<notin> set (drop 45 token) \<and>
      length (drop 45 token) = 43"
    by blast
qed

text \<open>
  C8, as amended (normalization of the key). \<open>None\<close> stays \<open>None\<close>; a \<open>bytes\<close> key comes
  back unchanged; a textual key with a UTF-8 encoding becomes that encoding, and one
  without (it holds a surrogate) makes \<open>_ensure_bytes\<close> raise \<open>UnicodeEncodeError\<close>.
  Signing, verification, generation and re-seeding see the key only through this
  normalization: each gives, on a key, what it gives on the normalized key.
\<close>

theorem ensure_bytes_cases:
  "ensure_bytes PyNone = Inr None \<and>
   ensure_bytes (PyBytes b) = Inr (Some b) \<and>
   (list_all encodable chars \<longrightarrow>
      ensure_bytes (PyStr chars) = Inr (Some (concat (map utf8_char chars)))) \<and>
   (\<not> list_all encodable bad \<longrightarrow> ensure_bytes (PyStr bad) = Inl UnicodeEncodeError) \<and>
   (ensure_bytes key = Inr kb \<longrightarrow>
      signature base_id key = signature base_id (optional_bytes kb) \<and>
      check_session_id_signature token key flag =
        check_session_id_signature token (optional_bytes kb) flag \<and>
      generate_session_id key signed_flag g = generate_session_id (optional_bytes kb) signed_flag g \<and>
      reseed_if_needed u key g = reseed_if_needed u (optional_bytes kb) g \<and>
      get_random_string len allowed_chars key g =
        get_random_string len allowed_chars (optional_bytes kb) g)"
  by (simp add: codecs_encode_utf8_def signature_def check_session_id_signature_def
      generate_session_id_def reseed_if_needed_def get_random_string_def)

theorem ensure_bytes_cases_witness:
  "list_all encodable [0xE9, 0x20AC] \<and>
   ensure_bytes (PyStr [0xE9, 0x20AC]) = Inr (Some [0xC3, 0xA9, 0xE2, 0x82, 0xAC]) \<and>
   \<not> list_all encodable [0xDC80] \<and>
   ensure_bytes (PyStr [0xDC80]) = Inl UnicodeEncodeError \<and>
   ensure_bytes (PyStr (literal ''k'')) = Inr (Some [0x6B]) \<and>
   signature (literal ''abc'') (PyStr (literal ''k'')) =
     signature (literal ''abc'') (PyBytes [0x6B])"
proof -
  have e: "ensure_bytes (PyStr (literal ''k'')) = Inr (Some [0x6B])"
    by (simp add: literal_def codecs_encode_utf8_def encodable_def is_surrogate_def
        utf8_char_def)
  show ?thesis
    using e ensure_bytes_cases [where chars = "[0xE9, 0x20AC]" and bad = "[0xDC80]"
        and key = "PyStr (literal ''k'')" and kb = "Some [0x6B]" and base_id = "literal ''abc''"]
    by (simp add: encodable_def is_surrogate_def utf8_char_def)
qed

text \<open>
  C8 as stated fails: normalization is not total on textual keys. The Python \<open>str\<close>
  made of the lone surrogate U+D800 has no UTF-8 encoding, and \<open>_ensure_bytes\<close> raises.
\<close>

theorem ensure_bytes_counterexample:
  "ensure_bytes (PyStr [0xD800]) = Inl UnicodeEncodeError"
  by (simp add: codecs_encode_utf8_def encodable_def is_surrogate_def)

text \<open>
  C10 (checking without a key raises). With \<open>signed\<close> true and the key \<open>None\<close>, the
  check of a token that contains a hyphen returns no boolean: it raises \<open>TypeError\<close>
  (from \<open>hmac.new\<close>), or \<open>UnicodeEncodeError\<close> before that when the part before the
  first hyphen has no UTF-8 encoding.
\<close>

theorem check_signed_without_key:
  assumes "hyphen \<in> set token"
  shows "check_session_id_signature token PyNone (Some True) =
           Inl (if list_all encodable (takeWhile (\<lambda>c. c \<noteq> hyphen) token)
                then TypeError else UnicodeEncodeError)"
  using assms
  by (simp add: check_session_id_signature_def split_once_def signature_none)

theorem check_signed_without_key_witness:
  "hyphen \<in> set (literal ''abc-def'') \<and>
   check_session_id_signature (literal ''abc-def'') PyNone (Some True) = Inl TypeError"
proof -
  have h: "hyphen \<in> set (literal ''abc-def'')"
    by (simp add: literal_def hyphen_def)
  show ?thesis
    using h check_signed_without_key [OF h]
    by (simp add: literal_def hyphen_def encodable_def is_surrogate_def)
qed

end
